theory Spec2Isabelle
  imports Complex_Main "HOL-Library.Word" "HOL-Library.Sublist"
begin

section \<open>JavaScript strings\<close>

text \<open>
  A JavaScript string is a sequence of UTF-16 code units, and \<open>length\<close> counts code
  units. \<open>String.prototype.trim\<close> removes the ECMAScript WhiteSpace and LineTerminator
  code points from both ends; all of them lie in the Basic Multilingual Plane, so the
  test is a test on one code unit. A string is truthy exactly when it is not empty.
\<close>

type_synonym code_unit = "16 word"

type_synonym js_string = "code_unit list"

definition of_ascii :: "string \<Rightarrow> js_string" where
  "of_ascii s = map (\<lambda>c. of_nat (of_char c)) s"

definition white_space_units :: "code_unit list" where
  "white_space_units =
     [0x0009, 0x000A, 0x000B, 0x000C, 0x000D, 0x0020, 0x00A0, 0x1680,
      0x2000, 0x2001, 0x2002, 0x2003, 0x2004, 0x2005, 0x2006, 0x2007,
      0x2008, 0x2009, 0x200A, 0x2028, 0x2029, 0x202F, 0x205F, 0x3000, 0xFEFF]"

definition isWhiteSpace :: "code_unit \<Rightarrow> bool" where
  "isWhiteSpace c = (c \<in> set white_space_units)"

definition trim :: "js_string \<Rightarrow> js_string" where
  "trim s = rev (dropWhile isWhiteSpace (rev (dropWhile isWhiteSpace s)))"


section \<open>The chat dialogue: \<open>ChatInterface.tsx\<close>\<close>

text \<open>
  \<open>sendChatMessage\<close> and the types \<open>ChatMessage\<close> and the response come from
  \<open>@/lib/api\<close>; the component reads \<open>role\<close> and \<open>content\<close> of a message and
  \<open>content\<close>, \<open>isComplete\<close> and \<open>roles\<close> of a response. \<open>roles\<close> is an array
  (\<open>any[]\<close>) or absent: an array is truthy even when empty, so \<open>response.roles\<close> in a
  condition is the test \<open>roles \<noteq> None\<close>. The element type is a parameter.
\<close>

record 'r ChatResponse =
  content :: js_string
  isComplete :: bool
  roles :: "'r list option"

datatype msg_role = User | Assistant

record ChatMessage =
  role :: msg_role
  content :: js_string

text \<open>
  What the \<open>catch\<close> clause receives: an \<open>Error\<close> object with its \<open>message\<close>, or
  any other thrown value with the text \<open>String(error)\<close> gives for it.
\<close>

datatype thrown = ErrorObject js_string | OtherValue js_string

fun error_text :: "thrown \<Rightarrow> js_string" where
  "error_text (ErrorObject message) = message"
| "error_text (OtherValue rendering) = rendering"

text \<open>
  The effects of one call of \<open>handleSend\<close> besides the component's state:
  \<open>console.error\<close>, and the timer that will call \<open>onComplete(response.roles)\<close>.
\<close>

datatype 'r effect = ConsoleError thrown | ScheduleOnComplete "'r list"

record ChatState =
  messages :: "ChatMessage list"
  input :: js_string
  loading :: bool

definition initial_ChatState :: ChatState where
  "initial_ChatState =
     \<lparr>messages =
        [\<lparr>role = Assistant,
          content = of_ascii
            ''Hi! I'm here to help you assemble your development team. Tell me about your project - what are you looking to build?''\<rparr>],
      input = [], loading = False\<rparr>"

text \<open>
  \<open>handleSend\<close> up to the \<open>await\<close>: the guard, the user message, and the three state
  updates. The result also holds \<open>newMessages\<close>, which the continuation reads from its
  closure.
\<close>

definition handleSend_begin :: "ChatState \<Rightarrow> (ChatState \<times> ChatMessage list) option" where
  "handleSend_begin s =
     (if trim (input s) = [] \<or> loading s then None
      else
        let userMessage = \<lparr>role = User, content = trim (input s)\<rparr>;
            newMessages = messages s @ [userMessage]
        in Some (s\<lparr>messages := newMessages, input := [], loading := True\<rparr>, newMessages))"

text \<open>
  \<open>handleSend\<close> after the \<open>await\<close>: the \<open>try\<close> body on a response, the \<open>catch\<close>
  clause on a rejection, and \<open>finally\<close> in both.
\<close>

definition handleSend_settle ::
  "ChatMessage list \<Rightarrow> thrown + 'r ChatResponse \<Rightarrow> ChatState \<Rightarrow> ChatState \<times> 'r effect list" where
  "handleSend_settle newMessages outcome s =
     (case outcome of
        Inr response \<Rightarrow>
          (let assistantMessage = \<lparr>role = Assistant, content = ChatResponse.content response\<rparr>
           in (s\<lparr>messages := newMessages @ [assistantMessage], loading := False\<rparr>,
               (case roles response of
                  Some rs \<Rightarrow> if isComplete response then [ScheduleOnComplete rs] else []
                | None \<Rightarrow> [])))
      | Inl error \<Rightarrow>
          (let errorMessage =
                 \<lparr>role = Assistant, content = of_ascii ''Error: '' @ error_text error\<rparr>
           in (s\<lparr>messages := newMessages @ [errorMessage], loading := False\<rparr>,
               [ConsoleError error])))"

text \<open>
  One whole turn. The first argument stands for \<open>sendChatMessage\<close>: it is given the
  full history and either resolves with a response or rejects.
\<close>

definition handleSend ::
  "(ChatMessage list \<Rightarrow> thrown + 'r ChatResponse) \<Rightarrow> ChatState \<Rightarrow> ChatState \<times> 'r effect list" where
  "handleSend sendChatMessage s =
     (case handleSend_begin s of
        None \<Rightarrow> (s, [])
      | Some (s1, newMessages) \<Rightarrow>
          handleSend_settle newMessages (sendChatMessage newMessages) s1)"

text \<open>
  The dialogue is \<open>COMPLETE\<close> once \<open>onComplete\<close> has been scheduled with the roles
  (\<open>ChatPage.handleComplete\<close> then leaves for the results page); until then it is
  \<open>GATHERING\<close>.
\<close>

datatype 'r dialogue = GATHERING | COMPLETE "'r list"

fun dialogue_after :: "'r effect list \<Rightarrow> 'r dialogue" where
  "dialogue_after [] = GATHERING"
| "dialogue_after (ScheduleOnComplete rs # es) = COMPLETE rs"
| "dialogue_after (ConsoleError e # es) = dialogue_after es"

text \<open>
  A conversation: the user edits the input field (\<open>onChange\<close> calls \<open>setInput\<close>) and
  sends (\<open>Enter\<close> or the button, both \<open>handleSend\<close>).
\<close>

datatype chat_event = TypeInput js_string | Send

fun chat_step ::
  "(ChatMessage list \<Rightarrow> thrown + 'r ChatResponse) \<Rightarrow> ChatState \<Rightarrow> chat_event \<Rightarrow> ChatState" where
  "chat_step sendChatMessage s (TypeInput v) = s\<lparr>input := v\<rparr>"
| "chat_step sendChatMessage s Send = fst (handleSend sendChatMessage s)"

definition conversation ::
  "(ChatMessage list \<Rightarrow> thrown + 'r ChatResponse) \<Rightarrow> chat_event list \<Rightarrow> ChatState \<Rightarrow> ChatState" where
  "conversation sendChatMessage evs s = foldl (chat_step sendChatMessage) s evs"

text \<open>
  Modelled from the spec: the element type of \<open>roles\<close>, which the component leaves as
  \<open>any\<close>. The data model gives a RoleSpec a title, a set of required skills, an optional
  seniority hint and a free-text context, and calls it complete when the title is not
  empty and there is at least one required skill.
\<close>

record RoleSpec =
  title :: js_string
  requiredSkills :: "js_string list"
  seniority :: "js_string option"
  contextText :: js_string

definition complete_RoleSpec :: "RoleSpec \<Rightarrow> bool" where
  "complete_RoleSpec r = (title r \<noteq> [] \<and> requiredSkills r \<noteq> [])"

text \<open>Concrete collaborators and states used to evaluate the dialogue.\<close>

definition blank_RoleSpec :: RoleSpec where
  "blank_RoleSpec = \<lparr>title = [], requiredSkills = [], seniority = None, contextText = []\<rparr>"

definition frontend_RoleSpec :: RoleSpec where
  "frontend_RoleSpec =
     \<lparr>title = of_ascii ''Frontend developer'', requiredSkills = [of_ascii ''React''],
      seniority = None, contextText = []\<rparr>"

definition reply_blank_role :: "ChatMessage list \<Rightarrow> thrown + RoleSpec ChatResponse" where
  "reply_blank_role history =
     Inr \<lparr>ChatResponse.content = of_ascii ''Done'', isComplete = True,
          roles = Some [blank_RoleSpec]\<rparr>"

definition reply_complete :: "ChatMessage list \<Rightarrow> thrown + RoleSpec ChatResponse" where
  "reply_complete history =
     Inr \<lparr>ChatResponse.content = of_ascii ''Done'', isComplete = True,
          roles = Some [frontend_RoleSpec]\<rparr>"

definition reply_unavailable :: "ChatMessage list \<Rightarrow> thrown + RoleSpec ChatResponse" where
  "reply_unavailable history = Inl (ErrorObject (of_ascii ''Failed to fetch''))"

definition greeting :: ChatMessage where
  "greeting = \<lparr>role = Assistant, content = of_ascii ''Hi!''\<rparr>"

definition typed_state :: ChatState where
  "typed_state = \<lparr>messages = [greeting], input = of_ascii '' a team '', loading = False\<rparr>"

section \<open>The Consultant record: the interface \<open>Consultant\<close>\<close>

text \<open>
  A value that crosses the API is a JavaScript object: a finite map from property names
  to values, where a property may be absent. A TypeScript interface is a structural
  type: an object conforms when every required property is present with a value of its
  type and every optional property (\<open>name?: T\<close>) is absent or has a value of its type.
\<close>

datatype js_value =
    JString js_string
  | JNumber rat
  | JBoolean bool
  | JArray "js_value list"

type_synonym js_object = "string \<rightharpoonup> js_value"

fun is_string :: "js_value \<Rightarrow> bool" where
  "is_string (JString s) = True"
| "is_string v = False"

fun is_number :: "js_value \<Rightarrow> bool" where
  "is_number (JNumber n) = True"
| "is_number v = False"

fun is_boolean :: "js_value \<Rightarrow> bool" where
  "is_boolean (JBoolean b) = True"
| "is_boolean v = False"

fun is_string_array :: "js_value \<Rightarrow> bool" where
  "is_string_array (JArray vs) = list_all is_string vs"
| "is_string_array v = False"

fun required :: "(js_value \<Rightarrow> bool) \<Rightarrow> js_value option \<Rightarrow> bool" where
  "required T (Some v) = T v"
| "required T None = False"

fun optional :: "(js_value \<Rightarrow> bool) \<Rightarrow> js_value option \<Rightarrow> bool" where
  "optional T (Some v) = T v"
| "optional T None = True"

text \<open>
  The interface, property by property. \<open>availability\<close> has the type
  \<open>"available" | "busy" | "unavailable" | string\<close>, which is \<open>string\<close>.
\<close>

definition Consultant :: "js_object \<Rightarrow> bool" where
  "Consultant obj =
     (optional is_string (obj ''id'') \<and>
      required is_string (obj ''name'') \<and>
      required is_string_array (obj ''skills'') \<and>
      required is_string (obj ''availability'') \<and>
      optional is_number (obj ''matchScore'') \<and>
      optional is_string (obj ''experience'') \<and>
      optional is_boolean (obj ''hasResume'') \<and>
      optional is_string (obj ''resumeId''))"

definition consultant_without_id :: js_object where
  "consultant_without_id =
     [''name'' \<mapsto> JString (of_ascii ''Ada''),
      ''skills'' \<mapsto> JArray [JString (of_ascii ''React''), JString (of_ascii ''Node'')],
      ''availability'' \<mapsto> JString (of_ascii ''available'')]"

definition consultant_with_id :: js_object where
  "consultant_with_id =
     [''id'' \<mapsto> JString (of_ascii ''c-1''),
      ''name'' \<mapsto> JString (of_ascii ''Ada''),
      ''skills'' \<mapsto> JArray [JString (of_ascii ''React'')],
      ''availability'' \<mapsto> JString (of_ascii ''busy''),
      ''experience'' \<mapsto> JString (of_ascii ''5 years of frontend work'')]"

section \<open>The submission page: \<open>ProjectDescriptionPage\<close>\<close>

definition maxCharacters :: nat where
  "maxCharacters = 5000"

text \<open>
  The page's only state is \<open>description\<close>. Leaving the page is the call
  \<open>navigate("/results", { state: { projectDescription: description } })\<close>.
\<close>

datatype navigation = Navigate string js_string

definition handlePost :: "js_string \<Rightarrow> navigation option" where
  "handlePost description =
     (if trim description \<noteq> [] then Some (Navigate ''/results'' description) else None)"

text \<open>The \<open>disabled\<close> attribute of the Post button.\<close>

definition post_disabled :: "js_string \<Rightarrow> bool" where
  "post_disabled description =
     (trim description = [] \<or> maxCharacters < length description)"

text \<open>
  The events the page handles: \<open>onChange\<close> of the textarea with the new value,
  \<open>onKeyDown\<close> with the key and the \<open>metaKey\<close> and \<open>ctrlKey\<close> flags, and a click on
  the Post button, which reaches \<open>onClick\<close> only when the button is not disabled.
\<close>

datatype page_event = Change js_string | KeyDown string bool bool | ClickPost

fun page_step :: "js_string \<Rightarrow> page_event \<Rightarrow> js_string \<times> navigation option" where
  "page_step description (Change v) = (v, None)"
| "page_step description (KeyDown key metaKey ctrlKey) =
     (description,
      if key = ''Enter'' \<and> (metaKey \<or> ctrlKey) then handlePost description else None)"
| "page_step description ClickPost =
     (description, if post_disabled description then None else handlePost description)"

text \<open>
  The textarea carries \<open>maxLength={maxCharacters}\<close>: the browser does not let the user
  make the value longer than that, so every value an \<open>onChange\<close> event delivers is within
  the bound. The other events are not constrained.
\<close>

fun delivered :: "page_event \<Rightarrow> bool" where
  "delivered (Change v) = (length v \<le> maxCharacters)"
| "delivered e = True"

text \<open>
  A session on the page: from a description, the events in order, up to the first
  navigation (which unmounts the page).
\<close>

fun page_session :: "js_string \<Rightarrow> page_event list \<Rightarrow> navigation option" where
  "page_session description [] = None"
| "page_session description (e # es) =
     (case page_step description e of
        (description', Some nav) \<Rightarrow> Some nav
      | (description', None) \<Rightarrow> page_session description' es)"

section \<open>The Query Normalizer\<close>

text \<open>
  Modelled from the spec: the Query Normalizer, which is part of the backend and not
  among the sources. Its contract: the input is a text of at most 5000 characters;
  the output is the canonical form, the lower-cased and whitespace-collapsed text with
  the set of its keyword tokens (stopwords removed, deduplicated); it fails with
  \<open>InvalidQuery\<close> when the input is empty or exceeds the length bound. Text is counted
  in code units as on the submission page. Lower-casing folds the letters \<open>A\<close> to \<open>Z\<close>;
  collapsing replaces every run of white space by one space and does not trim; the
  tokens are the maximal runs without white space; the stopword list is a parameter.
\<close>

datatype query_error = InvalidQuery

record CanonicalQuery =
  canonicalText :: js_string
  keywordTokens :: "js_string list"

definition lengthBound :: nat where
  "lengthBound = 5000"

definition isUpper :: "code_unit \<Rightarrow> bool" where
  "isUpper c = (0x41 \<le> c \<and> c \<le> 0x5A)"

definition lowerCase :: "code_unit \<Rightarrow> code_unit" where
  "lowerCase c = (if isUpper c then c + 0x20 else c)"

text \<open>The flag says that the code unit before was white space.\<close>

fun collapse :: "bool \<Rightarrow> js_string \<Rightarrow> js_string" where
  "collapse prev [] = []"
| "collapse prev (c # cs) =
     (if isWhiteSpace c then (if prev then collapse True cs else 0x20 # collapse True cs)
      else c # collapse False cs)"

definition canonical_text :: "js_string \<Rightarrow> js_string" where
  "canonical_text raw = collapse False (map lowerCase raw)"

text \<open>The first argument is the token read so far.\<close>

fun tokens :: "js_string \<Rightarrow> js_string \<Rightarrow> js_string list" where
  "tokens cur [] = (if cur = [] then [] else [cur])"
| "tokens cur (c # cs) =
     (if isWhiteSpace c then (if cur = [] then tokens [] cs else cur # tokens [] cs)
      else tokens (cur @ [c]) cs)"

fun dedupe_tokens :: "js_string list \<Rightarrow> js_string list" where
  "dedupe_tokens [] = []"
| "dedupe_tokens (w # ws) = w # dedupe_tokens (filter (\<lambda>v. v \<noteq> w) ws)"

definition extract_keywords :: "js_string list \<Rightarrow> js_string \<Rightarrow> js_string list" where
  "extract_keywords stopwords txt =
     dedupe_tokens (filter (\<lambda>w. w \<notin> set stopwords) (tokens [] txt))"

definition QueryNormalizer ::
  "js_string list \<Rightarrow> js_string \<Rightarrow> query_error + CanonicalQuery" where
  "QueryNormalizer stopwords raw =
     (if raw = [] \<or> lengthBound < length raw then Inl InvalidQuery
      else Inr \<lparr>canonicalText = canonical_text raw,
                keywordTokens = extract_keywords stopwords (canonical_text raw)\<rparr>)"

text \<open>
  What whitespace-collapsed means for a text: every white space in it is a space that
  is not followed by white space.
\<close>

fun collapsed :: "js_string \<Rightarrow> bool" where
  "collapsed [] = True"
| "collapsed [c] = (\<not> isWhiteSpace c \<or> c = 0x20)"
| "collapsed (c # d # cs) =
     ((\<not> isWhiteSpace c \<or> (c = 0x20 \<and> \<not> isWhiteSpace d)) \<and> collapsed (d # cs))"

definition sample_stopwords :: "js_string list" where
  "sample_stopwords = [of_ascii ''go'']"

definition sample_query :: js_string where
  "sample_query = of_ascii ''Go  React go React''"

section \<open>The Ranker\<close>

text \<open>
  Modelled from the spec: the ScoredCandidate of the data model (a consultant reference,
  here the consultant's id, a numeric score and the sequence of reasons) and the
  Ranker, which is part of the backend and not among the sources. Its contract: given
  a sequence of ScoredCandidates it returns the top \<open>K\<close>, ordered descending by score,
  ties in the original order of the candidates; it deduplicates by consultant id, and
  of the entries of one consultant the one with the highest score survives (the first
  of them when several have it), at its own place in the sequence.
\<close>

record ScoredCandidate =
  consultantId :: js_string
  score :: rat
  reasons :: "js_string list"

fun dedupe_best :: "ScoredCandidate list \<Rightarrow> ScoredCandidate list" where
  "dedupe_best [] = []"
| "dedupe_best (x # xs) =
     (if \<exists>y \<in> set xs. consultantId y = consultantId x \<and> score x < score y
      then dedupe_best xs
      else x # dedupe_best (filter (\<lambda>y. consultantId y \<noteq> consultantId x) xs))"

definition Ranker :: "nat \<Rightarrow> ScoredCandidate list \<Rightarrow> ScoredCandidate list" where
  "Ranker K candidates = take K (sort_key (\<lambda>c. - score c) (dedupe_best candidates))"

definition cand :: "string \<Rightarrow> rat \<Rightarrow> ScoredCandidate" where
  "cand i s = \<lparr>consultantId = of_ascii i, score = s, reasons = []\<rparr>"

definition sample_candidates :: "ScoredCandidate list" where
  "sample_candidates =
     [cand ''a'' (1/2), cand ''b'' (3/4), cand ''c'' (1/2), cand ''a'' (3/4), cand ''d'' (1/4)]"

section \<open>The Scorer\<close>

text \<open>
  Modelled from the spec: the strict Consultant shape of the data model (identity,
  name, skills, availability state, experience, education, optional resume reference)
  and the Scorer, which is part of the backend and not among the sources. Its
  algorithm: a semantic component, the similarity the Profile Store Adapter reports,
  normalized to \<open>[0,1]\<close>; a structured component, which adds a fixed increment for each
  keyword of the query that matches a skill of the consultant (more for an exact
  case-insensitive match than for a substring match) and caps the sum at \<open>1\<close>; an
  availability component, full for \<open>available\<close>, reduced for \<open>busy\<close>, further reduced or
  zero for \<open>unavailable\<close>; the composite score is the weighted sum of the three. The
  result carries a reason for every non-zero contribution. The weights, the increments
  and the availability weights are configuration; the spec's default weights are
  \<open>0.5\<close>, \<open>0.35\<close> and \<open>0.15\<close>.
\<close>

datatype availability = Available | Busy | Unavailable | OtherAvailability js_string

record ConsultantRecord =
  identity :: js_string
  fullName :: js_string
  skills :: "js_string list"
  availabilityState :: availability
  experience :: js_string
  education :: js_string
  resumeReference :: "js_string option"

record ScorerConfig =
  semanticWeight :: rat
  structuredWeight :: rat
  availabilityWeight :: rat
  exactIncrement :: rat
  substringIncrement :: rat
  busyLevel :: rat
  unavailableLevel :: rat
  otherLevel :: rat

definition valid_config :: "ScorerConfig \<Rightarrow> bool" where
  "valid_config cfg =
     (0 \<le> semanticWeight cfg \<and> 0 \<le> structuredWeight cfg \<and> 0 \<le> availabilityWeight cfg \<and>
      semanticWeight cfg + structuredWeight cfg + availabilityWeight cfg = 1 \<and>
      0 < substringIncrement cfg \<and> substringIncrement cfg < exactIncrement cfg \<and>
      0 \<le> unavailableLevel cfg \<and> unavailableLevel cfg \<le> busyLevel cfg \<and> busyLevel cfg < 1 \<and>
      0 \<le> otherLevel cfg \<and> otherLevel cfg \<le> 1)"

definition semantic_component :: "rat \<Rightarrow> rat" where
  "semantic_component similarity = max 0 (min 1 similarity)"

fun starts_with :: "js_string \<Rightarrow> js_string \<Rightarrow> bool" where
  "starts_with [] s = True"
| "starts_with (k # ks) [] = False"
| "starts_with (k # ks) (c # cs) = (k = c \<and> starts_with ks cs)"

fun occurs_in :: "js_string \<Rightarrow> js_string \<Rightarrow> bool" where
  "occurs_in k [] = (k = [])"
| "occurs_in k (c # cs) = (starts_with k (c # cs) \<or> occurs_in k cs)"

definition exact_match :: "js_string \<Rightarrow> js_string \<Rightarrow> bool" where
  "exact_match keyword skill = (map lowerCase keyword = map lowerCase skill)"

definition substring_match :: "js_string \<Rightarrow> js_string \<Rightarrow> bool" where
  "substring_match keyword skill = occurs_in (map lowerCase keyword) (map lowerCase skill)"

definition skill_increment :: "ScorerConfig \<Rightarrow> js_string list \<Rightarrow> js_string \<Rightarrow> rat" where
  "skill_increment cfg consultantSkills keyword =
     (if \<exists>s \<in> set consultantSkills. exact_match keyword s then exactIncrement cfg
      else if \<exists>s \<in> set consultantSkills. substring_match keyword s then substringIncrement cfg
      else 0)"

definition structured_component :: "ScorerConfig \<Rightarrow> js_string list \<Rightarrow> js_string list \<Rightarrow> rat" where
  "structured_component cfg queryKeywords consultantSkills =
     min 1 (sum_list (map (skill_increment cfg consultantSkills) queryKeywords))"

fun availability_component :: "ScorerConfig \<Rightarrow> availability \<Rightarrow> rat" where
  "availability_component cfg Available = 1"
| "availability_component cfg Busy = busyLevel cfg"
| "availability_component cfg Unavailable = unavailableLevel cfg"
| "availability_component cfg (OtherAvailability s) = otherLevel cfg"

fun availability_text :: "availability \<Rightarrow> js_string" where
  "availability_text Available = of_ascii ''available''"
| "availability_text Busy = of_ascii ''busy''"
| "availability_text Unavailable = of_ascii ''unavailable''"
| "availability_text (OtherAvailability s) = s"

definition composite_score ::
  "ScorerConfig \<Rightarrow> rat \<Rightarrow> CanonicalQuery \<Rightarrow> ConsultantRecord \<Rightarrow> rat" where
  "composite_score cfg similarity q c =
     semanticWeight cfg * semantic_component similarity
     + structuredWeight cfg * structured_component cfg (keywordTokens q) (skills c)
     + availabilityWeight cfg * availability_component cfg (availabilityState c)"

definition score_reasons ::
  "ScorerConfig \<Rightarrow> rat \<Rightarrow> CanonicalQuery \<Rightarrow> ConsultantRecord \<Rightarrow> js_string list" where
  "score_reasons cfg similarity q c =
     (if semanticWeight cfg * semantic_component similarity \<noteq> 0
      then [of_ascii ''semantic similarity''] else [])
     @ map (\<lambda>k. of_ascii ''skill match: '' @ k)
         (filter (\<lambda>k. structuredWeight cfg * skill_increment cfg (skills c) k \<noteq> 0)
            (keywordTokens q))
     @ (if availabilityWeight cfg * availability_component cfg (availabilityState c) \<noteq> 0
        then [of_ascii ''availability: '' @ availability_text (availabilityState c)] else [])"

definition Scorer ::
  "ScorerConfig \<Rightarrow> rat \<Rightarrow> CanonicalQuery \<Rightarrow> ConsultantRecord \<Rightarrow> ScoredCandidate" where
  "Scorer cfg similarity q c =
     \<lparr>consultantId = identity c,
      score = composite_score cfg similarity q c,
      reasons = score_reasons cfg similarity q c\<rparr>"

definition sample_config :: ScorerConfig where
  "sample_config =
     \<lparr>semanticWeight = 1/2, structuredWeight = 7/20, availabilityWeight = 3/20,
      exactIncrement = 1/2, substringIncrement = 1/4,
      busyLevel = 1/2, unavailableLevel = 0, otherLevel = 0\<rparr>"

definition react_query :: CanonicalQuery where
  "react_query = \<lparr>canonicalText = of_ascii ''react dev'', keywordTokens = [of_ascii ''react'']\<rparr>"

definition react_consultant :: ConsultantRecord where
  "react_consultant =
     \<lparr>identity = of_ascii ''c1'', fullName = of_ascii ''Ada'',
      skills = [of_ascii ''React'', of_ascii ''Node''], availabilityState = Available,
      experience = [], education = [], resumeReference = None\<rparr>"

definition idle_consultant :: ConsultantRecord where
  "idle_consultant =
     \<lparr>identity = of_ascii ''c2'', fullName = of_ascii ''Bo'',
      skills = [of_ascii ''Go''], availabilityState = Unavailable,
      experience = [], education = [], resumeReference = None\<rparr>"

section \<open>Properties of the chat dialogue\<close>

lemma handleSend_begin_Some:
  assumes "handleSend_begin s = Some (s1, newMessages)"
  shows "newMessages = messages s @ [\<lparr>role = User, content = trim (input s)\<rparr>]"
    and "s1 = s\<lparr>messages := newMessages, input := [], loading := True\<rparr>"
    and "trim (input s) \<noteq> []" and "\<not> loading s"
  using assms by (auto simp: handleSend_begin_def Let_def split: if_splits)

lemma handleSend_begin_accepts:
  assumes "trim (input s) \<noteq> []" and "\<not> loading s"
  shows "handleSend_begin s \<noteq> None"
  using assms by (simp add: handleSend_begin_def Let_def)

lemma handleSend_settle_messages:
  "\<exists>reply. role reply = Assistant \<and>
     messages (fst (handleSend_settle newMessages outcome s)) = newMessages @ [reply]"
  by (cases outcome) (simp_all add: handleSend_settle_def Let_def)

lemma handleSend_prefix: "prefix (messages s) (messages (fst (handleSend sendChatMessage s)))"
proof (cases "handleSend_begin s")
  case None
  then show ?thesis by (simp add: handleSend_def)
next
  case (Some p)
  obtain s1 newMessages where p: "p = (s1, newMessages)" by (cases p)
  from Some p have nm: "newMessages = messages s @ [\<lparr>role = User, content = trim (input s)\<rparr>]"
    by (simp add: handleSend_begin_Some(1))
  obtain reply where
    "messages (fst (handleSend_settle newMessages (sendChatMessage newMessages) s1)) =
       newMessages @ [reply]"
    using handleSend_settle_messages by blast
  with Some p nm show ?thesis by (simp add: handleSend_def)
qed

lemma conversation_prefix:
  "prefix (messages s) (messages (conversation sendChatMessage evs s))"
proof (induction evs arbitrary: s)
  case Nil
  then show ?case by (simp add: conversation_def)
next
  case (Cons e evs)
  have step: "prefix (messages s) (messages (chat_step sendChatMessage s e))"
    by (cases e) (simp_all add: handleSend_prefix)
  have "prefix (messages (chat_step sendChatMessage s e))
          (messages (conversation sendChatMessage evs (chat_step sendChatMessage s e)))"
    by (rule Cons.IH)
  with step show ?case
    by (simp add: conversation_def)
qed

text \<open>
  C1, as the code has it. A turn that is sent and answered ends \<open>COMPLETE\<close> exactly
  when the response sets \<open>isComplete\<close> and carries a \<open>roles\<close> array, and then with
  that array as it came: the component never looks inside it. In every other case the
  dialogue stays \<open>GATHERING\<close>.
\<close>

theorem complete_iff_flag_and_roles:
  assumes "handleSend_begin s = Some (s1, newMessages)"
      and "sendChatMessage newMessages = Inr response"
  shows "dialogue_after (snd (handleSend sendChatMessage s)) =
           (case roles response of
              Some rs \<Rightarrow> if isComplete response then COMPLETE rs else GATHERING
            | None \<Rightarrow> GATHERING)"
  using assms by (simp add: handleSend_def handleSend_settle_def Let_def split: option.splits)

theorem complete_iff_flag_and_roles_witness:
  "handleSend_begin typed_state =
     Some (\<lparr>messages = [greeting, \<lparr>role = User, content = of_ascii ''a team''\<rparr>],
            input = [], loading = True\<rparr>,
           [greeting, \<lparr>role = User, content = of_ascii ''a team''\<rparr>])
   \<and> reply_complete [greeting, \<lparr>role = User, content = of_ascii ''a team''\<rparr>] =
       Inr \<lparr>ChatResponse.content = of_ascii ''Done'', isComplete = True,
            roles = Some [frontend_RoleSpec]\<rparr>
   \<and> dialogue_after (snd (handleSend reply_complete typed_state)) = COMPLETE [frontend_RoleSpec]"
proof -
  have b: "handleSend_begin typed_state =
     Some (\<lparr>messages = [greeting, \<lparr>role = User, content = of_ascii ''a team''\<rparr>],
            input = [], loading = True\<rparr>,
           [greeting, \<lparr>role = User, content = of_ascii ''a team''\<rparr>])"
    by (simp add: handleSend_begin_def typed_state_def Let_def trim_def of_ascii_def
        isWhiteSpace_def white_space_units_def)
  have r: "reply_complete [greeting, \<lparr>role = User, content = of_ascii ''a team''\<rparr>] =
       Inr \<lparr>ChatResponse.content = of_ascii ''Done'', isComplete = True,
            roles = Some [frontend_RoleSpec]\<rparr>"
    by (simp add: reply_complete_def)
  from complete_iff_flag_and_roles [where sendChatMessage = reply_complete, OF b r] b r show ?thesis by simp
qed

text \<open>
  C1, as the claim states it, fails: a response that sets \<open>isComplete\<close> and carries one
  RoleSpec with an empty title and no required skill takes the dialogue to \<open>COMPLETE\<close>
  with that RoleSpec.
\<close>

theorem complete_with_incomplete_RoleSpec:
  "dialogue_after (snd (handleSend reply_blank_role typed_state)) = COMPLETE [blank_RoleSpec]
   \<and> \<not> complete_RoleSpec blank_RoleSpec"
  by (simp add: handleSend_def handleSend_begin_def handleSend_settle_def Let_def
      reply_blank_role_def typed_state_def trim_def of_ascii_def isWhiteSpace_def
      white_space_units_def complete_RoleSpec_def blank_RoleSpec_def)

text \<open>
  C7. When the call of the language-generation capability fails during a turn, the
  dialogue does not transition: nothing schedules \<open>onComplete\<close>, so it stays
  \<open>GATHERING\<close>. The error is reported: it is logged, and its text is appended to the
  history as an assistant message after the user's turn. The state is no terminal
  one: \<open>loading\<close> is reset, and the next non-blank input is accepted as a new turn.
\<close>

theorem error_turn_stays_gathering:
  assumes "handleSend_begin s = Some (s1, newMessages)"
      and "sendChatMessage newMessages = Inl err"
  shows "snd (handleSend sendChatMessage s) = [ConsoleError err]
       \<and> dialogue_after (snd (handleSend sendChatMessage s)) = GATHERING
       \<and> messages (fst (handleSend sendChatMessage s)) =
           newMessages @ [\<lparr>role = Assistant, content = of_ascii ''Error: '' @ error_text err\<rparr>]
       \<and> \<not> loading (fst (handleSend sendChatMessage s))
       \<and> (trim v \<noteq> [] \<longrightarrow>
           handleSend_begin ((fst (handleSend sendChatMessage s))\<lparr>input := v\<rparr>) \<noteq> None)"
  using assms
  by (simp add: handleSend_def handleSend_settle_def handleSend_begin_def Let_def)

theorem error_turn_stays_gathering_witness:
  "handleSend_begin typed_state =
     Some (\<lparr>messages = [greeting, \<lparr>role = User, content = of_ascii ''a team''\<rparr>],
            input = [], loading = True\<rparr>,
           [greeting, \<lparr>role = User, content = of_ascii ''a team''\<rparr>])
   \<and> reply_unavailable [greeting, \<lparr>role = User, content = of_ascii ''a team''\<rparr>] =
       Inl (ErrorObject (of_ascii ''Failed to fetch''))
   \<and> snd (handleSend reply_unavailable typed_state) =
       [ConsoleError (ErrorObject (of_ascii ''Failed to fetch'')) :: RoleSpec effect]
   \<and> dialogue_after (snd (handleSend reply_unavailable typed_state)) = GATHERING
   \<and> messages (fst (handleSend reply_unavailable typed_state)) =
       [greeting, \<lparr>role = User, content = of_ascii ''a team''\<rparr>,
        \<lparr>role = Assistant, content = of_ascii ''Error: Failed to fetch''\<rparr>]
   \<and> \<not> loading (fst (handleSend reply_unavailable typed_state))
   \<and> trim (of_ascii ''again'') \<noteq> []
   \<and> handleSend_begin ((fst (handleSend reply_unavailable typed_state))\<lparr>input := of_ascii ''again''\<rparr>)
       \<noteq> None"
proof -
  have b: "handleSend_begin typed_state =
     Some (\<lparr>messages = [greeting, \<lparr>role = User, content = of_ascii ''a team''\<rparr>],
            input = [], loading = True\<rparr>,
           [greeting, \<lparr>role = User, content = of_ascii ''a team''\<rparr>])"
    by (simp add: handleSend_begin_def typed_state_def Let_def trim_def of_ascii_def
        isWhiteSpace_def white_space_units_def)
  have r: "reply_unavailable [greeting, \<lparr>role = User, content = of_ascii ''a team''\<rparr>] =
       Inl (ErrorObject (of_ascii ''Failed to fetch''))"
    by (simp add: reply_unavailable_def)
  have t: "trim (of_ascii ''again'') \<noteq> []"
    by (simp add: trim_def of_ascii_def isWhiteSpace_def white_space_units_def)
  have m: "of_ascii ''Error: '' @ of_ascii ''Failed to fetch'' = of_ascii ''Error: Failed to fetch''"
    by (simp add: of_ascii_def)
  from error_turn_stays_gathering
         [where sendChatMessage = reply_unavailable and v = "of_ascii ''again''", OF b r]
       b r t m
  show ?thesis by simp
qed

text \<open>
  C8. The history only grows. A call of \<open>handleSend\<close> that the guard rejects leaves it
  as it is; an accepted turn, whether the answer is a question, a completion or an
  error, shows the history with the user's turn appended while it waits and ends with
  the history, the user's turn and one assistant message. So through any sequence of
  edits and sends the history at the start is a prefix of the history at the end: no
  earlier message is removed or rewritten.
\<close>

theorem history_grows_monotonically:
  "(handleSend_begin s = None \<longrightarrow>
      messages (fst (handleSend sendChatMessage s)) = messages s)
   \<and> (handleSend_begin s = Some (s1, newMessages) \<longrightarrow>
        messages s1 = messages s @ [\<lparr>role = User, content = trim (input s)\<rparr>] \<and>
        (\<exists>reply. role reply = Assistant \<and>
           messages (fst (handleSend sendChatMessage s)) =
             messages s @ [\<lparr>role = User, content = trim (input s)\<rparr>, reply]))
   \<and> prefix (messages s) (messages (fst (handleSend sendChatMessage s)))
   \<and> prefix (messages s) (messages (conversation sendChatMessage evs s))"
proof -
  have rejected: "messages (fst (handleSend sendChatMessage s)) = messages s"
    if "handleSend_begin s = None"
    using that by (simp add: handleSend_def)
  have accepted: "messages s1 = messages s @ [\<lparr>role = User, content = trim (input s)\<rparr>] \<and>
           (\<exists>reply. role reply = Assistant \<and>
              messages (fst (handleSend sendChatMessage s)) =
                messages s @ [\<lparr>role = User, content = trim (input s)\<rparr>, reply])"
    if b: "handleSend_begin s = Some (s1, newMessages)"
  proof -
    from b have nm: "newMessages = messages s @ [\<lparr>role = User, content = trim (input s)\<rparr>]"
      and s1: "s1 = s\<lparr>messages := newMessages, input := [], loading := True\<rparr>"
      by (rule handleSend_begin_Some)+
    obtain reply where "role reply = Assistant"
      and "messages (fst (handleSend_settle newMessages (sendChatMessage newMessages) s1)) =
             newMessages @ [reply]"
      using handleSend_settle_messages by blast
    with b nm s1 show ?thesis by (simp add: handleSend_def)
  qed
  from rejected accepted handleSend_prefix conversation_prefix show ?thesis by blast
qed

theorem history_grows_monotonically_witness:
  "handleSend_begin typed_state =
     Some (\<lparr>messages = [greeting, \<lparr>role = User, content = of_ascii ''a team''\<rparr>],
            input = [], loading = True\<rparr>,
           [greeting, \<lparr>role = User, content = of_ascii ''a team''\<rparr>])
   \<and> messages (fst (handleSend reply_unavailable typed_state)) =
       [greeting, \<lparr>role = User, content = of_ascii ''a team''\<rparr>,
        \<lparr>role = Assistant, content = of_ascii ''Error: Failed to fetch''\<rparr>]
   \<and> (\<exists>reply. role reply = Assistant \<and>
        messages (fst (handleSend reply_complete typed_state)) =
          [greeting, \<lparr>role = User, content = of_ascii ''a team''\<rparr>, reply])
   \<and> handleSend_begin (typed_state\<lparr>input := of_ascii '' ''\<rparr>) = None
   \<and> messages (fst (handleSend reply_unavailable (typed_state\<lparr>input := of_ascii '' ''\<rparr>))) =
       [greeting]
   \<and> prefix [greeting]
       (messages (conversation reply_complete
          [Send, TypeInput (of_ascii ''and a designer''), Send] typed_state))"
proof -
  have b: "handleSend_begin typed_state =
     Some (\<lparr>messages = [greeting, \<lparr>role = User, content = of_ascii ''a team''\<rparr>],
            input = [], loading = True\<rparr>,
           [greeting, \<lparr>role = User, content = of_ascii ''a team''\<rparr>])"
    by (simp add: handleSend_begin_def typed_state_def Let_def trim_def of_ascii_def
        isWhiteSpace_def white_space_units_def)
  have n: "handleSend_begin (typed_state\<lparr>input := of_ascii '' ''\<rparr>) = None"
    by (simp add: handleSend_begin_def typed_state_def Let_def trim_def of_ascii_def
        isWhiteSpace_def white_space_units_def)
  have m: "messages typed_state = [greeting]"
    by (simp add: typed_state_def)
  have e: "messages (fst (handleSend reply_unavailable typed_state)) =
       [greeting, \<lparr>role = User, content = of_ascii ''a team''\<rparr>,
        \<lparr>role = Assistant, content = of_ascii ''Error: Failed to fetch''\<rparr>]"
    using b by (simp add: handleSend_def handleSend_settle_def reply_unavailable_def Let_def
        of_ascii_def)
  from history_grows_monotonically
         [where s = "typed_state\<lparr>input := of_ascii '' ''\<rparr>"
            and sendChatMessage = reply_unavailable]
       n m
  have r: "messages (fst (handleSend reply_unavailable (typed_state\<lparr>input := of_ascii '' ''\<rparr>))) =
       [greeting]"
    by simp
  from history_grows_monotonically
         [where s = typed_state and sendChatMessage = reply_complete
            and evs = "[Send, TypeInput (of_ascii ''and a designer''), Send]"]
       m
  have p: "prefix [greeting]
       (messages (conversation reply_complete
          [Send, TypeInput (of_ascii ''and a designer''), Send] typed_state))"
    by simp
  have t: "trim (input typed_state) = of_ascii ''a team''"
    by (simp add: typed_state_def trim_def of_ascii_def isWhiteSpace_def white_space_units_def)
  from history_grows_monotonically
         [where s = typed_state and sendChatMessage = reply_complete
            and ?s1.0 = "\<lparr>messages = [greeting, \<lparr>role = User, content = of_ascii ''a team''\<rparr>],
                          input = [], loading = True\<rparr>"
            and newMessages = "[greeting, \<lparr>role = User, content = of_ascii ''a team''\<rparr>]"]
       b m t
  have a: "\<exists>reply. role reply = Assistant \<and>
        messages (fst (handleSend reply_complete typed_state)) =
          [greeting, \<lparr>role = User, content = of_ascii ''a team''\<rparr>, reply]"
    by simp
  from b e a n r p show ?thesis by simp
qed

section \<open>Properties of the Consultant record\<close>

lemma required_string: "required is_string p \<Longrightarrow> \<exists>s. p = Some (JString s)"
  by (cases p; cases "the p") auto

lemma optional_string: "optional is_string p \<Longrightarrow> p = None \<or> (\<exists>s. p = Some (JString s))"
  by (cases p; cases "the p") auto

lemma is_string_array_strings:
  "is_string_array v \<Longrightarrow> \<exists>ss. v = JArray (map JString ss)"
proof (cases v)
  case (JArray vs)
  assume "is_string_array v"
  with JArray have "list_all is_string vs" by simp
  then have "\<exists>ss. vs = map JString ss"
  proof (induction vs)
    case Nil
    then show ?case by simp
  next
    case (Cons a vs)
    then obtain ss where ss: "vs = map JString ss" by auto
    from Cons.prems obtain s where "a = JString s" by (cases a) auto
    with ss have "a # vs = map JString (s # ss)" by simp
    then show ?case by (rule exI)
  qed
  with JArray show ?thesis by simp
qed simp_all

lemma required_string_array:
  "required is_string_array p \<Longrightarrow> \<exists>ss. p = Some (JArray (map JString ss))"
  by (cases p) (auto dest: is_string_array_strings)

text \<open>
  C9, as the interface has it. Every Consultant record carries a name, a list of skill
  strings and an availability string. The identity \<open>id\<close> and the free-text
  \<open>experience\<close> are optional: each is a string when present, and may be absent.
\<close>

theorem Consultant_fields:
  assumes "Consultant obj"
  shows "(\<exists>n. obj ''name'' = Some (JString n))
       \<and> (\<exists>ss. obj ''skills'' = Some (JArray (map JString ss)))
       \<and> (\<exists>a. obj ''availability'' = Some (JString a))
       \<and> (obj ''id'' = None \<or> (\<exists>i. obj ''id'' = Some (JString i)))
       \<and> (obj ''experience'' = None \<or> (\<exists>e. obj ''experience'' = Some (JString e)))"
  using assms unfolding Consultant_def
  by (meson required_string optional_string required_string_array)

theorem Consultant_fields_witness:
  "Consultant consultant_with_id
   \<and> consultant_with_id ''name'' = Some (JString (of_ascii ''Ada''))
   \<and> consultant_with_id ''skills'' = Some (JArray (map JString [of_ascii ''React'']))
   \<and> consultant_with_id ''availability'' = Some (JString (of_ascii ''busy''))
   \<and> consultant_with_id ''id'' = Some (JString (of_ascii ''c-1''))
   \<and> consultant_with_id ''experience'' = Some (JString (of_ascii ''5 years of frontend work''))"
proof -
  have c: "Consultant consultant_with_id"
    by (simp add: Consultant_def consultant_with_id_def)
  from Consultant_fields [OF c] c show ?thesis
    by (simp add: consultant_with_id_def)
qed

text \<open>
  C9, as the claim states it, fails: an object with a name, skills and an availability
  and no \<open>id\<close> property is a Consultant.
\<close>

theorem Consultant_id_absent:
  "Consultant consultant_without_id \<and> consultant_without_id ''id'' = None"
  by (simp add: Consultant_def consultant_without_id_def)

section \<open>Properties of the submission page\<close>

lemma trim_eq_Nil_iff: "trim s = [] \<longleftrightarrow> (\<forall>c \<in> set s. isWhiteSpace c)"
proof
  assume t: "trim s = []"
  show "\<forall>c \<in> set s. isWhiteSpace c"
  proof (cases "dropWhile isWhiteSpace s")
    case Nil
    then show ?thesis by simp
  next
    case (Cons c cs)
    then have "\<not> isWhiteSpace c" by (metis hd_dropWhile list.sel(1) list.distinct(1))
    with Cons have "\<exists>x \<in> set (rev (dropWhile isWhiteSpace s)). \<not> isWhiteSpace x" by auto
    then have "dropWhile isWhiteSpace (rev (dropWhile isWhiteSpace s)) \<noteq> []"
      by simp
    with t show ?thesis by (simp add: trim_def)
  qed
next
  assume "\<forall>c \<in> set s. isWhiteSpace c"
  then have "dropWhile isWhiteSpace s = []" by simp
  then show "trim s = []" by (simp only: trim_def dropWhile.simps rev.simps)
qed

lemma handlePost_Some:
  assumes "handlePost d = Some (Navigate path p)"
  shows "path = ''/results''" and "p = d" and "trim d \<noteq> []"
  using assms by (auto simp: handlePost_def split: if_splits)

lemma page_step_posts:
  assumes "page_step d e = (d', Some (Navigate path p))"
  shows "path = ''/results'' \<and> p = d \<and> trim d \<noteq> []"
  using assms by (cases e) (auto split: if_splits dest: handlePost_Some)

lemma page_step_bound:
  assumes "length d \<le> maxCharacters" and "delivered e" and "page_step d e = (d', r)"
  shows "length d' \<le> maxCharacters"
  using assms by (cases e) auto

lemma page_session_posts:
  assumes "length d \<le> maxCharacters" and "list_all delivered es"
      and "page_session d es = Some (Navigate path p)"
  shows "path = ''/results'' \<and> trim p \<noteq> [] \<and> length p \<le> maxCharacters"
  using assms
proof (induction es arbitrary: d)
  case Nil
  then show ?case by simp
next
  case (Cons e es)
  obtain d' r where st: "page_step d e = (d', r)" by (cases "page_step d e")
  show ?case
  proof (cases r)
    case None
    with st Cons.prems have "page_session d' es = Some (Navigate path p)" by simp
    moreover from st Cons.prems have "length d' \<le> maxCharacters"
      by (auto intro: page_step_bound)
    moreover from Cons.prems have "list_all delivered es" by simp
    ultimately show ?thesis by (rule Cons.IH [rotated 2])
  next
    case (Some nav)
    with st Cons.prems have "nav = Navigate path p" by simp
    with st Some have "path = ''/results'' \<and> p = d \<and> trim d \<noteq> []"
      by (auto dest: page_step_posts)
    with Cons.prems(1) show ?thesis by simp
  qed
qed

text \<open>
  C10. Whatever the user does on the page (any sequence of edits, key presses and
  clicks, the edits within the textarea's \<open>maxLength\<close>), a description that is posted
  goes to \<open>/results\<close>, contains a code unit that is not white space, and is at most 5000
  code units long. So it is neither empty nor white space only nor longer than the
  bound: none of the inputs on which the Normalizer is specified to fail with
  \<open>InvalidQuery\<close> leaves this page. The Post button alone would also refuse an
  overlong description; \<open>handlePost\<close>, which the keyboard shortcut calls directly,
  checks the blank case only.
\<close>

theorem posted_description_valid:
  assumes "list_all delivered es"
      and "page_session [] es = Some (Navigate path p)"
  shows "path = ''/results''
       \<and> (\<exists>c \<in> set p. \<not> isWhiteSpace c)
       \<and> p \<noteq> []
       \<and> length p \<le> 5000
       \<and> \<not> post_disabled p"
proof -
  have "length ([] :: js_string) \<le> maxCharacters" by simp
  from page_session_posts [OF this assms]
  have r: "path = ''/results''" "trim p \<noteq> []" "length p \<le> maxCharacters" by simp_all
  from r(2) have ne: "\<exists>c \<in> set p. \<not> isWhiteSpace c" by (simp add: trim_eq_Nil_iff)
  then have "p \<noteq> []" by auto
  with r ne show ?thesis by (simp add: maxCharacters_def post_disabled_def)
qed

theorem posted_description_valid_witness:
  "list_all delivered
     [Change (of_ascii '' ''), ClickPost, KeyDown ''Enter'' False True,
      Change (of_ascii ''React dev''), KeyDown ''Enter'' False False, ClickPost]
   \<and> page_session []
       [Change (of_ascii '' ''), ClickPost, KeyDown ''Enter'' False True,
        Change (of_ascii ''React dev''), KeyDown ''Enter'' False False, ClickPost]
     = Some (Navigate ''/results'' (of_ascii ''React dev''))
   \<and> (\<exists>c \<in> set (of_ascii ''React dev''). \<not> isWhiteSpace c)
   \<and> of_ascii ''React dev'' \<noteq> []
   \<and> length (of_ascii ''React dev'') \<le> 5000
   \<and> \<not> post_disabled (of_ascii ''React dev'')"
proof -
  have a: "list_all delivered
     [Change (of_ascii '' ''), ClickPost, KeyDown ''Enter'' False True,
      Change (of_ascii ''React dev''), KeyDown ''Enter'' False False, ClickPost]"
    by (simp add: maxCharacters_def of_ascii_def)
  have b: "page_session []
       [Change (of_ascii '' ''), ClickPost, KeyDown ''Enter'' False True,
        Change (of_ascii ''React dev''), KeyDown ''Enter'' False False, ClickPost]
     = Some (Navigate ''/results'' (of_ascii ''React dev''))"
    by (simp add: handlePost_def post_disabled_def maxCharacters_def trim_def of_ascii_def
        isWhiteSpace_def white_space_units_def)
  from posted_description_valid [OF a b] a b show ?thesis by simp
qed

section \<open>Properties of the Query Normalizer\<close>

lemma isUpper_unat: "isUpper c \<longleftrightarrow> 65 \<le> unat c \<and> unat c \<le> 90"
  by (simp add: isUpper_def word_le_nat_alt)

lemma unat_not_ws: "33 \<le> unat c \<Longrightarrow> unat c \<le> 126 \<Longrightarrow> \<not> isWhiteSpace c"
  by (auto simp: isWhiteSpace_def white_space_units_def)

lemma isUpper_not_ws: "isUpper c \<Longrightarrow> \<not> isWhiteSpace c"
  by (rule unat_not_ws) (simp_all add: isUpper_unat)

lemma upper_shift:
  assumes "isUpper c"
  shows "unat (c + 0x20) = unat c + 32"
proof -
  from assms have "unat c + unat (0x20 :: code_unit) < 2 ^ LENGTH(16)"
    by (simp add: isUpper_unat)
  then have "unat (c + 0x20) = unat c + unat (0x20 :: code_unit)"
    by (simp only: unat_add_lem)
  then show ?thesis by simp
qed

lemma lower_not_upper: "\<not> isUpper (lowerCase c)"
  using upper_shift [of c] by (auto simp: lowerCase_def isUpper_unat)

lemma lowerCase_idem: "lowerCase (lowerCase c) = lowerCase c"
  using lower_not_upper [of c] by (simp add: lowerCase_def [of "lowerCase c"])

lemma lowerCase_ws: "isWhiteSpace (lowerCase c) = isWhiteSpace c"
proof (cases "isUpper c")
  case True
  with upper_shift [of c] have "\<not> isWhiteSpace (c + 0x20)"
    by (intro unat_not_ws) (simp_all add: isUpper_unat)
  with True show ?thesis by (simp add: lowerCase_def isUpper_not_ws)
next
  case False
  then show ?thesis by (simp add: lowerCase_def)
qed

lemma lowerCase_space: "isWhiteSpace c \<Longrightarrow> lowerCase c = c"
  using isUpper_not_ws [of c] by (auto simp: lowerCase_def)

lemma collapse_idem: "(q \<longrightarrow> p) \<Longrightarrow> collapse q (collapse p s) = collapse p s"
proof (induction s arbitrary: p q)
  case Nil
  then show ?case by simp
next
  case (Cons c cs)
  have sp: "isWhiteSpace 0x20" by (simp add: isWhiteSpace_def white_space_units_def)
  from Cons show ?case by (auto simp: sp)
qed

lemma collapse_map_lower:
  "collapse p (map lowerCase s) = map lowerCase (collapse p s)"
proof (induction s arbitrary: p)
  case Nil
  then show ?case by simp
next
  case (Cons c cs)
  have "lowerCase 0x20 = 0x20" by (simp add: lowerCase_def isUpper_def)
  with Cons show ?case by (simp add: lowerCase_ws)
qed

lemma canonical_text_idem: "canonical_text (canonical_text raw) = canonical_text raw"
  by (simp add: canonical_text_def collapse_map_lower [symmetric] lowerCase_idem collapse_idem
      comp_def)

lemma collapse_length: "length (collapse p s) \<le> length s"
  by (induction s arbitrary: p) (auto intro: le_SucI)

lemma collapse_nonempty: "s \<noteq> [] \<Longrightarrow> collapse False s \<noteq> []"
  by (cases s) auto

lemma canonical_text_valid:
  "raw \<noteq> [] \<Longrightarrow> length raw \<le> n \<Longrightarrow> canonical_text raw \<noteq> [] \<and> length (canonical_text raw) \<le> n"
  using collapse_length [of False "map lowerCase raw"] collapse_nonempty [of "map lowerCase raw"]
  by (simp add: canonical_text_def)

lemma collapse_set: "set (collapse p s) \<subseteq> insert 0x20 (set s)"
  by (induction s arbitrary: p) auto

lemma canonical_text_lower: "list_all (\<lambda>c. \<not> isUpper c) (canonical_text raw)"
proof -
  have "\<not> isUpper (0x20 :: code_unit)" by (simp add: isUpper_def)
  with collapse_set [of False "map lowerCase raw"] lower_not_upper
  show ?thesis by (auto simp: canonical_text_def list_all_iff)
qed

lemma collapse_True_head: "collapse True s = c # cs \<Longrightarrow> \<not> isWhiteSpace c"
  by (induction s) (auto split: if_splits)

lemma collapsed_collapse: "collapsed (collapse p s)"
proof (induction s arbitrary: p)
  case Nil
  then show ?case by simp
next
  case (Cons c cs)
  show ?case
  proof (cases "isWhiteSpace c")
    case True
    show ?thesis
    proof (cases p)
      case True
      with \<open>isWhiteSpace c\<close> Cons show ?thesis by simp
    next
      case False
      have "collapsed (0x20 # collapse True cs)"
        using Cons.IH [of True] collapse_True_head [of cs]
        by (cases "collapse True cs") auto
      with False \<open>isWhiteSpace c\<close> show ?thesis by simp
    qed
  next
    case False
    have "collapsed (c # collapse False cs)"
      using Cons.IH [of False] False by (cases "collapse False cs") simp_all
    with False show ?thesis by simp
  qed
qed

lemma dedupe_tokens_set: "set (dedupe_tokens ws) = set ws"
  by (induction ws rule: dedupe_tokens.induct) auto

lemma dedupe_tokens_distinct: "distinct (dedupe_tokens ws)"
  by (induction ws rule: dedupe_tokens.induct) (auto simp: dedupe_tokens_set)

lemma tokens_no_ws:
  "list_all (\<lambda>c. \<not> isWhiteSpace c) cur \<Longrightarrow> w \<in> set (tokens cur s) \<Longrightarrow>
     w \<noteq> [] \<and> list_all (\<lambda>c. \<not> isWhiteSpace c) w"
  by (induction cur s rule: tokens.induct) (auto split: if_splits)

lemma extract_keywords_props:
  "distinct (extract_keywords stopwords txt)
   \<and> set (extract_keywords stopwords txt) \<inter> set stopwords = {}
   \<and> (\<forall>w \<in> set (extract_keywords stopwords txt). w \<noteq> [] \<and> list_all (\<lambda>c. \<not> isWhiteSpace c) w)"
proof -
  have "w \<noteq> [] \<and> list_all (\<lambda>c. \<not> isWhiteSpace c) w" if "w \<in> set (tokens [] txt)" for w
    using that by (intro tokens_no_ws [where cur = "[]" and s = "txt"]) simp_all
  then show ?thesis
    by (auto simp: extract_keywords_def dedupe_tokens_distinct dedupe_tokens_set)
qed

text \<open>
  C2. The Normalizer fails with \<open>InvalidQuery\<close> exactly when the text is empty or
  longer than 5000. On every other text it succeeds with the canonical form: a text
  without upper-case letters in which every white space is a single space, and keyword
  tokens that are distinct and contain no stopword. It is a function of its input: there
  is no state it could change.
\<close>

theorem normalizer_fails_iff_empty_or_oversized:
  "(QueryNormalizer stopwords raw = Inl InvalidQuery \<longleftrightarrow> raw = [] \<or> 5000 < length raw)
   \<and> (raw \<noteq> [] \<and> length raw \<le> 5000 \<longrightarrow>
        QueryNormalizer stopwords raw =
          Inr \<lparr>canonicalText = canonical_text raw,
               keywordTokens = extract_keywords stopwords (canonical_text raw)\<rparr>
        \<and> list_all (\<lambda>c. \<not> isUpper c) (canonical_text raw)
        \<and> collapsed (canonical_text raw)
        \<and> distinct (extract_keywords stopwords (canonical_text raw))
        \<and> set (extract_keywords stopwords (canonical_text raw)) \<inter> set stopwords = {})"
proof -
  have "QueryNormalizer stopwords raw = Inl InvalidQuery \<longleftrightarrow> raw = [] \<or> 5000 < length raw"
    by (simp add: QueryNormalizer_def lengthBound_def)
  moreover have "QueryNormalizer stopwords raw =
          Inr \<lparr>canonicalText = canonical_text raw,
               keywordTokens = extract_keywords stopwords (canonical_text raw)\<rparr>"
    if "raw \<noteq> []" and "length raw \<le> 5000"
    using that by (simp add: QueryNormalizer_def lengthBound_def)
  moreover have "collapsed (canonical_text raw)"
    by (simp add: canonical_text_def collapsed_collapse)
  ultimately show ?thesis
    using canonical_text_lower [of raw] extract_keywords_props [of stopwords "canonical_text raw"]
    by blast
qed

theorem normalizer_fails_iff_empty_or_oversized_witness:
  "QueryNormalizer sample_stopwords [] = Inl InvalidQuery
   \<and> QueryNormalizer sample_stopwords (replicate 5001 0x61) = Inl InvalidQuery
   \<and> sample_query \<noteq> [] \<and> length sample_query \<le> 5000
   \<and> QueryNormalizer sample_stopwords sample_query =
       Inr \<lparr>canonicalText = of_ascii ''go react go react'', keywordTokens = [of_ascii ''react'']\<rparr>
   \<and> list_all (\<lambda>c. \<not> isUpper c) (of_ascii ''go react go react'')
   \<and> collapsed (of_ascii ''go react go react'')"
proof -
  have v: "sample_query \<noteq> [] \<and> length sample_query \<le> 5000"
    by (simp add: sample_query_def of_ascii_def)
  have t: "canonical_text sample_query = of_ascii ''go react go react''"
    by (simp add: sample_query_def canonical_text_def of_ascii_def isWhiteSpace_def
        white_space_units_def isUpper_def lowerCase_def)
  have k: "extract_keywords sample_stopwords (of_ascii ''go react go react'') = [of_ascii ''react'']"
    by (simp add: sample_stopwords_def extract_keywords_def of_ascii_def isWhiteSpace_def
        white_space_units_def)
  have e: "([] :: js_string) = [] \<or> 5000 < length ([] :: js_string)" by simp
  have l: "replicate 5001 (0x61 :: code_unit) = [] \<or> 5000 < length (replicate 5001 (0x61 :: code_unit))"
    by simp
  from normalizer_fails_iff_empty_or_oversized [of sample_stopwords "[]"] e
  have 1: "QueryNormalizer sample_stopwords [] = Inl InvalidQuery" by blast
  from normalizer_fails_iff_empty_or_oversized [of sample_stopwords "replicate 5001 0x61"] l
  have 2: "QueryNormalizer sample_stopwords (replicate 5001 0x61) = Inl InvalidQuery" by blast
  from normalizer_fails_iff_empty_or_oversized [of sample_stopwords sample_query] v
  have 3: "QueryNormalizer sample_stopwords sample_query =
          Inr \<lparr>canonicalText = canonical_text sample_query,
               keywordTokens = extract_keywords sample_stopwords (canonical_text sample_query)\<rparr>
        \<and> list_all (\<lambda>c. \<not> isUpper c) (canonical_text sample_query)
        \<and> collapsed (canonical_text sample_query)"
    by blast
  from 1 2 3 v show ?thesis by (simp add: t k)
qed

text \<open>
  C6. On a valid input (not empty, at most 5000 long) the Normalizer succeeds, and
  normalizing the text of its result succeeds with the same result: the same text and
  the same keyword tokens.
\<close>

theorem normalizer_idempotent:
  assumes "raw \<noteq> []" and "length raw \<le> 5000"
  shows "\<exists>q. QueryNormalizer stopwords raw = Inr q
           \<and> QueryNormalizer stopwords (canonicalText q) = Inr q"
  using assms canonical_text_valid [of raw lengthBound]
  by (simp add: QueryNormalizer_def canonical_text_idem lengthBound_def)

theorem normalizer_idempotent_witness:
  "sample_query \<noteq> [] \<and> length sample_query \<le> 5000
   \<and> QueryNormalizer sample_stopwords sample_query =
       Inr \<lparr>canonicalText = of_ascii ''go react go react'', keywordTokens = [of_ascii ''react'']\<rparr>
   \<and> QueryNormalizer sample_stopwords (of_ascii ''go react go react'') =
       Inr \<lparr>canonicalText = of_ascii ''go react go react'', keywordTokens = [of_ascii ''react'']\<rparr>"
proof -
  have v: "sample_query \<noteq> []" "length sample_query \<le> 5000"
    by (simp_all add: sample_query_def of_ascii_def)
  have t: "canonical_text sample_query = of_ascii ''go react go react''"
    by (simp add: sample_query_def canonical_text_def of_ascii_def isWhiteSpace_def
        white_space_units_def isUpper_def lowerCase_def)
  have k: "extract_keywords sample_stopwords (of_ascii ''go react go react'') = [of_ascii ''react'']"
    by (simp add: sample_stopwords_def extract_keywords_def of_ascii_def isWhiteSpace_def
        white_space_units_def)
  from v have e: "QueryNormalizer sample_stopwords sample_query =
       Inr \<lparr>canonicalText = of_ascii ''go react go react'', keywordTokens = [of_ascii ''react'']\<rparr>"
    by (simp add: QueryNormalizer_def lengthBound_def t k)
  from normalizer_idempotent [OF v, of sample_stopwords] obtain q where
    "QueryNormalizer sample_stopwords sample_query = Inr q"
    and "QueryNormalizer sample_stopwords (canonicalText q) = Inr q"
    by blast
  with e have "QueryNormalizer sample_stopwords (of_ascii ''go react go react'') =
       Inr \<lparr>canonicalText = of_ascii ''go react go react'', keywordTokens = [of_ascii ''react'']\<rparr>"
    by auto
  with v e show ?thesis by (intro conjI)
qed

section \<open>Properties of the Scorer\<close>

lemma semantic_bounds: "0 \<le> semantic_component x \<and> semantic_component x \<le> 1"
  by (simp add: semantic_component_def)

lemma skill_increment_nonneg: "valid_config cfg \<Longrightarrow> 0 \<le> skill_increment cfg ss k"
  by (auto simp: valid_config_def skill_increment_def)

lemma sum_list_nonneg:
  fixes xs :: "rat list"
  shows "\<forall>x \<in> set xs. 0 \<le> x \<Longrightarrow> 0 \<le> sum_list xs"
  by (induction xs) simp_all

lemma sum_list_pos_iff:
  fixes xs :: "rat list"
  shows "\<forall>x \<in> set xs. 0 \<le> x \<Longrightarrow> 0 < sum_list xs \<longleftrightarrow> (\<exists>x \<in> set xs. x \<noteq> 0)"
proof (induction xs)
  case Nil
  then show ?case by simp
next
  case (Cons x xs)
  then have x: "0 \<le> x" and s: "0 \<le> sum_list xs"
    and IH: "0 < sum_list xs \<longleftrightarrow> (\<exists>x \<in> set xs. x \<noteq> 0)"
    by (simp_all add: sum_list_nonneg)
  from x s have "0 < x + sum_list xs \<longleftrightarrow> x \<noteq> 0 \<or> 0 < sum_list xs" by linarith
  with IH show ?case by simp
qed

lemma structured_bounds:
  assumes "valid_config cfg"
  shows "0 \<le> structured_component cfg ks ss \<and> structured_component cfg ks ss \<le> 1"
proof -
  have "\<forall>x \<in> set (map (skill_increment cfg ss) ks). 0 \<le> x"
    using assms by (auto simp: skill_increment_nonneg)
  then have "0 \<le> sum_list (map (skill_increment cfg ss) ks)" by (rule sum_list_nonneg)
  then show ?thesis by (simp add: structured_component_def)
qed

lemma structured_pos_iff:
  assumes "valid_config cfg"
  shows "0 < structured_component cfg ks ss \<longleftrightarrow> (\<exists>k \<in> set ks. skill_increment cfg ss k \<noteq> 0)"
proof -
  have "\<forall>x \<in> set (map (skill_increment cfg ss) ks). 0 \<le> x"
    using assms by (auto simp: skill_increment_nonneg)
  from sum_list_pos_iff [OF this]
  have "0 < sum_list (map (skill_increment cfg ss) ks) \<longleftrightarrow> (\<exists>k \<in> set ks. skill_increment cfg ss k \<noteq> 0)"
    by auto
  then show ?thesis by (simp add: structured_component_def)
qed

lemma availability_bounds:
  "valid_config cfg \<Longrightarrow> 0 \<le> availability_component cfg a \<and> availability_component cfg a \<le> 1"
  by (cases a) (auto simp: valid_config_def)

lemma weighted_sum_bounds:
  fixes a b c x y z :: rat
  assumes "0 \<le> a" "0 \<le> b" "0 \<le> c" "a + b + c = 1"
      and "0 \<le> x" "x \<le> 1" "0 \<le> y" "y \<le> 1" "0 \<le> z" "z \<le> 1"
  shows "0 \<le> a * x + b * y + c * z" and "a * x + b * y + c * z \<le> 1"
    and "0 < a * x + b * y + c * z \<longleftrightarrow> a * x \<noteq> 0 \<or> b * y \<noteq> 0 \<or> c * z \<noteq> 0"
proof -
  have n: "0 \<le> a * x" "0 \<le> b * y" "0 \<le> c * z" using assms by simp_all
  then show "0 \<le> a * x + b * y + c * z" by simp
  have "a * x \<le> a * 1" by (rule mult_left_mono) fact+
  moreover have "b * y \<le> b * 1" by (rule mult_left_mono) fact+
  moreover have "c * z \<le> c * 1" by (rule mult_left_mono) fact+
  ultimately have "a * x + b * y + c * z \<le> a + b + c" by simp
  with assms(4) show "a * x + b * y + c * z \<le> 1" by simp
  from n show "0 < a * x + b * y + c * z \<longleftrightarrow> a * x \<noteq> 0 \<or> b * y \<noteq> 0 \<or> c * z \<noteq> 0"
    by linarith
qed

lemma score_reasons_nonempty_iff:
  "score_reasons cfg sim q c \<noteq> [] \<longleftrightarrow>
     semanticWeight cfg * semantic_component sim \<noteq> 0
     \<or> (\<exists>k \<in> set (keywordTokens q). structuredWeight cfg * skill_increment cfg (skills c) k \<noteq> 0)
     \<or> availabilityWeight cfg * availability_component cfg (availabilityState c) \<noteq> 0"
  by (auto simp: score_reasons_def filter_empty_conv)

text \<open>
  C4. Under a valid configuration (weights that are not negative and sum to one,
  positive increments, availability levels between zero and one) every ScoredCandidate
  the Scorer returns has its score in the closed interval from zero to one, and its
  sequence of reasons is non-empty exactly when the score is greater than zero.
\<close>

theorem Scorer_score_bounded_reasons_iff_positive:
  assumes "valid_config cfg"
  shows "0 \<le> score (Scorer cfg sim q c) \<and> score (Scorer cfg sim q c) \<le> 1
       \<and> (reasons (Scorer cfg sim q c) \<noteq> [] \<longleftrightarrow> 0 < score (Scorer cfg sim q c))"
proof -
  let ?x = "semantic_component sim"
  let ?y = "structured_component cfg (keywordTokens q) (skills c)"
  let ?z = "availability_component cfg (availabilityState c)"
  from assms have w: "0 \<le> semanticWeight cfg" "0 \<le> structuredWeight cfg"
    "0 \<le> availabilityWeight cfg"
    "semanticWeight cfg + structuredWeight cfg + availabilityWeight cfg = 1"
    by (simp_all add: valid_config_def)
  have x: "0 \<le> ?x" "?x \<le> 1" using semantic_bounds [of sim] by simp_all
  have y: "0 \<le> ?y" "?y \<le> 1" using structured_bounds [OF assms, of "keywordTokens q" "skills c"] by simp_all
  have z: "0 \<le> ?z" "?z \<le> 1" using availability_bounds [OF assms, of "availabilityState c"] by simp_all
  note b = weighted_sum_bounds [OF w x y z]
  have "structuredWeight cfg * ?y \<noteq> 0 \<longleftrightarrow>
        (\<exists>k \<in> set (keywordTokens q). structuredWeight cfg * skill_increment cfg (skills c) k \<noteq> 0)"
    using structured_pos_iff [OF assms, of "keywordTokens q" "skills c"] y(1) by auto
  with b(3) have "0 < composite_score cfg sim q c \<longleftrightarrow> score_reasons cfg sim q c \<noteq> []"
    unfolding score_reasons_nonempty_iff composite_score_def by simp
  with b(1) b(2) show ?thesis by (simp add: Scorer_def composite_score_def)
qed

theorem Scorer_score_bounded_reasons_iff_positive_witness:
  "valid_config sample_config
   \<and> score (Scorer sample_config (2/5) react_query react_consultant) = 21/40
   \<and> reasons (Scorer sample_config (2/5) react_query react_consultant) =
       [of_ascii ''semantic similarity'', of_ascii ''skill match: react'',
        of_ascii ''availability: available'']
   \<and> 0 \<le> score (Scorer sample_config (2/5) react_query react_consultant)
   \<and> score (Scorer sample_config (2/5) react_query react_consultant) \<le> 1
   \<and> reasons (Scorer sample_config 0 react_query idle_consultant) = []
   \<and> score (Scorer sample_config 0 react_query idle_consultant) = 0"
proof -
  have c: "valid_config sample_config"
    by (simp add: valid_config_def sample_config_def)
  have s: "score (Scorer sample_config (2/5) react_query react_consultant) = 21/40"
    by (simp add: Scorer_def composite_score_def semantic_component_def
        structured_component_def skill_increment_def exact_match_def substring_match_def
        sample_config_def react_query_def react_consultant_def of_ascii_def
        lowerCase_def isUpper_def)
  have r: "reasons (Scorer sample_config (2/5) react_query react_consultant) =
       [of_ascii ''semantic similarity'', of_ascii ''skill match: react'',
        of_ascii ''availability: available'']"
    by (simp add: Scorer_def score_reasons_def semantic_component_def
        skill_increment_def exact_match_def substring_match_def
        sample_config_def react_query_def react_consultant_def of_ascii_def
        lowerCase_def isUpper_def)
  have z: "reasons (Scorer sample_config 0 react_query idle_consultant) = []"
    by (simp add: Scorer_def score_reasons_def semantic_component_def
        skill_increment_def exact_match_def substring_match_def
        sample_config_def react_query_def idle_consultant_def of_ascii_def
        lowerCase_def isUpper_def)
  note p = Scorer_score_bounded_reasons_iff_positive [OF c, of "2/5" react_query react_consultant]
  note n = Scorer_score_bounded_reasons_iff_positive [OF c, of 0 react_query idle_consultant]
  from p have b: "0 \<le> score (Scorer sample_config (2/5) react_query react_consultant)"
    "score (Scorer sample_config (2/5) react_query react_consultant) \<le> 1"
    by simp_all
  from n z have "0 \<le> score (Scorer sample_config 0 react_query idle_consultant)"
    and "\<not> 0 < score (Scorer sample_config 0 react_query idle_consultant)"
    by simp_all
  then have e: "score (Scorer sample_config 0 react_query idle_consultant) = 0" by simp
  from c s r b z e show ?thesis by (intro conjI)
qed

section \<open>Properties of the Ranker\<close>

lemma dedupe_best_keep:
  "\<not> (\<exists>y \<in> set xs. consultantId y = consultantId x \<and> score x < score y) \<Longrightarrow>
     dedupe_best (x # xs) = x # dedupe_best (filter (\<lambda>y. consultantId y \<noteq> consultantId x) xs)"
  by (simp only: dedupe_best.simps if_False)

lemma dedupe_best_drop:
  "\<exists>y \<in> set xs. consultantId y = consultantId x \<and> score x < score y \<Longrightarrow>
     dedupe_best (x # xs) = dedupe_best xs"
  by (simp only: dedupe_best.simps if_True)

lemma dedupe_best_subset: "set (dedupe_best xs) \<subseteq> set xs"
  by (induction xs rule: dedupe_best.induct) auto

lemma dedupe_best_distinct: "distinct (map consultantId (dedupe_best xs))"
proof (induction xs rule: dedupe_best.induct)
  case 1
  then show ?case by simp
next
  case (2 x xs)
  have "consultantId x \<notin> consultantId ` set (dedupe_best (filter (\<lambda>y. consultantId y \<noteq> consultantId x) xs))"
    using dedupe_best_subset [of "filter (\<lambda>y. consultantId y \<noteq> consultantId x) xs"] by auto
  with 2 show ?case by simp
qed

lemma dedupe_best_best:
  "e \<in> set (dedupe_best xs) \<Longrightarrow>
     e \<in> set xs \<and> (\<forall>y \<in> set xs. consultantId y = consultantId e \<longrightarrow> score y \<le> score e)"
proof (induction xs rule: dedupe_best.induct)
  case 1
  then show ?case by simp
next
  case (2 x xs)
  show ?case
  proof (cases "\<exists>y \<in> set xs. consultantId y = consultantId x \<and> score x < score y")
    case True
    with 2 have e: "e \<in> set xs" and b: "\<forall>y \<in> set xs. consultantId y = consultantId e \<longrightarrow> score y \<le> score e"
      by auto
    from True obtain y where "y \<in> set xs" "consultantId y = consultantId x" "score x < score y" by blast
    with b have "consultantId x = consultantId e \<longrightarrow> score x \<le> score e" by force
    with e b show ?thesis by simp
  next
    case False
    show ?thesis
    proof (cases "e = x")
      case True
      with False show ?thesis by (auto simp: not_less)
    next
      case ne: False
      from False have "dedupe_best (x # xs) =
          x # dedupe_best (filter (\<lambda>y. consultantId y \<noteq> consultantId x) xs)"
        by (rule dedupe_best_keep)
      with ne 2(3) have "e \<in> set (dedupe_best (filter (\<lambda>y. consultantId y \<noteq> consultantId x) xs))"
        by simp
      with 2(2) [OF False] show ?thesis by auto
    qed
  qed
qed

lemma dedupe_best_ids: "consultantId ` set (dedupe_best xs) = consultantId ` set xs"
proof (induction xs rule: dedupe_best.induct)
  case 1
  then show ?case by simp
next
  case (2 x xs)
  show ?case
  proof (cases "\<exists>y \<in> set xs. consultantId y = consultantId x \<and> score x < score y")
    case True
    then obtain y where "y \<in> set xs" "consultantId y = consultantId x" by blast
    then have "consultantId x \<in> consultantId ` set xs" by (metis imageI)
    with dedupe_best_drop [OF True] 2(1) [OF True] show ?thesis by auto
  next
    case False
    from False have "dedupe_best (x # xs) =
        x # dedupe_best (filter (\<lambda>y. consultantId y \<noteq> consultantId x) xs)"
      by (rule dedupe_best_keep)
    with 2(2) [OF False] show ?thesis by auto
  qed
qed

lemma dedupe_best_subseq: "subseq (dedupe_best xs) xs"
proof (induction xs rule: dedupe_best.induct)
  case 1
  then show ?case by simp
next
  case (2 x xs)
  have "subseq (filter (\<lambda>y. consultantId y \<noteq> consultantId x) xs) xs" by simp
  with 2 show ?case by (auto intro: subseq_order.trans)
qed

lemma sorted_desc: "sorted_wrt (\<lambda>a b. score b \<le> score a) (sort_key (\<lambda>c. - score c) xs)"
proof -
  have "sorted (map (\<lambda>c. - score c) (sort_key (\<lambda>c. - score c) xs))" by (rule sorted_sort_key)
  then show ?thesis by (simp add: sorted_map)
qed

lemma sorted_wrt_take_drop:
  assumes "sorted_wrt R xs"
  shows "sorted_wrt R (take n xs) \<and> (\<forall>a \<in> set (take n xs). \<forall>b \<in> set (drop n xs). R a b)"
proof -
  from assms have "sorted_wrt R (take n xs @ drop n xs)" by simp
  then show ?thesis by (simp only: sorted_wrt_append) blast
qed

lemma Ranker_ties_in_order: "subseq (filter (\<lambda>e. score e = s) (Ranker K xs)) xs"
proof -
  let ?d = "dedupe_best xs"
  let ?P = "\<lambda>e. score e = s"
  have "subseq (take K (sort_key (\<lambda>c. - score c) ?d)) (sort_key (\<lambda>c. - score c) ?d)"
    by (simp add: prefix_imp_subseq take_is_prefix)
  then have "subseq (filter ?P (Ranker K xs)) (filter ?P (sort_key (\<lambda>c. - score c) ?d))"
    unfolding Ranker_def by (rule subseq_filter)
  moreover have "filter ?P (sort_key (\<lambda>c. - score c) ?d) = filter ?P ?d"
    using sort_key_stable [of "\<lambda>c. - score c" "- s" ?d] by simp
  moreover have "subseq (filter ?P ?d) xs"
    using dedupe_best_subseq [of xs] subseq_filter_left [of ?P ?d]
    by (rule subseq_order.trans [rotated])
  ultimately show ?thesis by (auto intro: subseq_order.trans)
qed

text \<open>
  C3. For every sequence of ScoredCandidates and every bound \<open>K\<close> the Ranker returns at
  most \<open>K\<close> entries, no two of the same consultant; each entry is an entry of the input
  and has the highest score the input gives its consultant; the entries are ordered by
  non-increasing score, and entries of equal score stand in the order they have in the
  input; no surviving entry that was cut off scores higher than an entry returned. The
  result has exactly \<open>K\<close> entries when the input names at least \<open>K\<close> consultants, and
  one for every consultant otherwise. The Ranker is a function of \<open>K\<close> and the sequence,
  so two runs on the same input give the same output.
\<close>

theorem Ranker_top_K_deduplicated_stable:
  "length (Ranker K xs) \<le> K
   \<and> distinct (map consultantId (Ranker K xs))
   \<and> (\<forall>e \<in> set (Ranker K xs). e \<in> set xs \<and>
        (\<forall>y \<in> set xs. consultantId y = consultantId e \<longrightarrow> score y \<le> score e))
   \<and> sorted_wrt (\<lambda>a b. score b \<le> score a) (Ranker K xs)
   \<and> (\<forall>s. subseq (filter (\<lambda>e. score e = s) (Ranker K xs)) xs)
   \<and> (\<forall>e \<in> set (Ranker K xs). \<forall>d \<in> set (dedupe_best xs) - set (Ranker K xs). score d \<le> score e)
   \<and> (K \<le> card (consultantId ` set xs) \<longrightarrow> length (Ranker K xs) = K)
   \<and> (card (consultantId ` set xs) \<le> K \<longrightarrow> consultantId ` set (Ranker K xs) = consultantId ` set xs)"
proof -
  let ?ys = "sort_key (\<lambda>c. - score c) (dedupe_best xs)"
  have 1: "length (Ranker K xs) \<le> K" by (simp add: Ranker_def)
  have "distinct (map consultantId ?ys)"
    using dedupe_best_distinct [of xs] by (simp add: distinct_map)
  then have 2: "distinct (map consultantId (Ranker K xs))"
    by (simp add: Ranker_def take_map [symmetric])
  have 3: "\<forall>e \<in> set (Ranker K xs). e \<in> set xs \<and>
        (\<forall>y \<in> set xs. consultantId y = consultantId e \<longrightarrow> score y \<le> score e)"
  proof
    fix e assume "e \<in> set (Ranker K xs)"
    then have "e \<in> set (dedupe_best xs)" by (auto simp: Ranker_def dest: in_set_takeD)
    then show "e \<in> set xs \<and> (\<forall>y \<in> set xs. consultantId y = consultantId e \<longrightarrow> score y \<le> score e)"
      by (rule dedupe_best_best)
  qed
  note td = sorted_wrt_take_drop [OF sorted_desc, of K "dedupe_best xs"]
  from td have 4: "sorted_wrt (\<lambda>a b. score b \<le> score a) (Ranker K xs)" by (simp add: Ranker_def)
  have 6: "\<forall>e \<in> set (Ranker K xs). \<forall>d \<in> set (dedupe_best xs) - set (Ranker K xs). score d \<le> score e"
  proof (intro ballI)
    fix e d assume e: "e \<in> set (Ranker K xs)" and d: "d \<in> set (dedupe_best xs) - set (Ranker K xs)"
    have "set ?ys = set (take K ?ys) \<union> set (drop K ?ys)" by (metis append_take_drop_id set_append)
    with d have "d \<in> set (drop K ?ys)" by (auto simp: Ranker_def)
    with td e show "score d \<le> score e" by (auto simp: Ranker_def)
  qed
  have len: "length (dedupe_best xs) = card (consultantId ` set xs)"
    using dedupe_best_distinct [of xs] dedupe_best_ids [of xs]
    by (metis distinct_card length_map set_map)
  have 7: "K \<le> card (consultantId ` set xs) \<longrightarrow> length (Ranker K xs) = K"
    using len by (simp add: Ranker_def)
  have 8: "card (consultantId ` set xs) \<le> K \<longrightarrow> consultantId ` set (Ranker K xs) = consultantId ` set xs"
    using len dedupe_best_ids [of xs] by (simp add: Ranker_def)
  have 5: "\<forall>s. subseq (filter (\<lambda>e. score e = s) (Ranker K xs)) xs"
    by (simp add: Ranker_ties_in_order)
  show ?thesis
    by (intro conjI) (rule 1, rule 2, rule 3, rule 4, rule 5, rule 6, rule 7, rule 8)
qed


theorem Ranker_top_K_deduplicated_stable_witness:
  "Ranker 2 sample_candidates = [cand ''b'' (3/4), cand ''a'' (3/4)]
   \<and> length (Ranker 2 sample_candidates) \<le> 2
   \<and> distinct (map consultantId (Ranker 2 sample_candidates))
   \<and> cand ''a'' (3/4) \<in> set (Ranker 2 sample_candidates)
   \<and> cand ''a'' (1/2) \<in> set sample_candidates
   \<and> consultantId (cand ''a'' (1/2)) = consultantId (cand ''a'' (3/4))
   \<and> score (cand ''a'' (1/2)) \<le> score (cand ''a'' (3/4))
   \<and> subseq [cand ''b'' (3/4), cand ''a'' (3/4)] sample_candidates"
proof -
  have v: "Ranker 2 sample_candidates = [cand ''b'' (3/4), cand ''a'' (3/4)]"
    by (simp add: Ranker_def sample_candidates_def cand_def of_ascii_def)
  note p = Ranker_top_K_deduplicated_stable [of 2 sample_candidates]
  from p have 1: "length (Ranker 2 sample_candidates) \<le> 2" by (rule conjunct1)
  from p have 2: "distinct (map consultantId (Ranker 2 sample_candidates))"
    by (elim conjE)
  have m: "cand ''a'' (3/4) \<in> set (Ranker 2 sample_candidates)" by (simp add: v)
  have i: "cand ''a'' (1/2) \<in> set sample_candidates" by (simp add: sample_candidates_def)
  have c: "consultantId (cand ''a'' (1/2)) = consultantId (cand ''a'' (3/4))"
    by (simp add: cand_def)
  from p have "\<forall>e \<in> set (Ranker 2 sample_candidates). e \<in> set sample_candidates \<and>
        (\<forall>y \<in> set sample_candidates. consultantId y = consultantId e \<longrightarrow> score y \<le> score e)"
    by (elim conjE)
  with m i c have 3: "score (cand ''a'' (1/2)) \<le> score (cand ''a'' (3/4))" by blast
  from p have "\<forall>s. subseq (filter (\<lambda>e. score e = s) (Ranker 2 sample_candidates)) sample_candidates"
    by (elim conjE)
  then have "subseq (filter (\<lambda>e. score e = 3/4) (Ranker 2 sample_candidates)) sample_candidates"
    by (rule spec)
  then have 4: "subseq [cand ''b'' (3/4), cand ''a'' (3/4)] sample_candidates"
    by (simp add: v) (simp add: cand_def)
  from v 1 2 m i c 3 4 show ?thesis by (intro conjI)
qed

section \<open>The submission page and the Query Normalizer\<close>

text \<open>
  What leaves the submission page is a valid input of the Normalizer as modelled above:
  on a posted description it does not fail.
\<close>

lemma posted_description_normalizes:
  assumes "list_all delivered es"
      and "page_session [] es = Some (Navigate path p)"
  shows "QueryNormalizer stopwords p =
           Inr \<lparr>canonicalText = canonical_text p,
                keywordTokens = extract_keywords stopwords (canonical_text p)\<rparr>"
proof -
  have "length ([] :: js_string) \<le> maxCharacters" by simp
  from page_session_posts [OF this assms]
  have t: "trim p \<noteq> []" and l: "length p \<le> maxCharacters" by simp_all
  from t have "p \<noteq> []" by (auto simp: trim_eq_Nil_iff)
  with l show ?thesis
    by (simp add: QueryNormalizer_def lengthBound_def maxCharacters_def)
qed

end
